theory Spec2Isabelle
  imports Complex_Main
begin

section \<open>Data model\<close>

text \<open>
  Positions are rows \<open>(x, y, z)\<close> of the coordinate arrays of the script. Floating-point
  numbers are idealised as reals; every comparison of the script (\<open>\<le>\<close>, minimum, argmax)
  is modelled by the same comparison on reals.
\<close>

type_synonym pos = "real \<times> real \<times> real"

definition px :: "pos \<Rightarrow> real" where
  "px p = fst p"

definition py :: "pos \<Rightarrow> real" where
  "py p = fst (snd p)"

definition pz :: "pos \<Rightarrow> real" where
  "pz p = snd (snd p)"

text \<open>
  The unit cell \<open>[lx, ly, lz, alpha, beta, gamma]\<close> as returned by
  \<open>Timestep.dimensions\<close>.
\<close>

record box =
  lx :: real
  ly :: real
  lz :: real
  alpha :: real
  beta :: real
  gamma :: real

text \<open>
  Every \<open>raise\<close> of the script and every exception of a library call the script can run
  into is one constructor. The script raises \<open>ValueError\<close> throughout and distinguishes
  the cases by message; the constructors keep the value each message is formatted with.
\<close>

datatype error =
    NotFlat
  | BadFlatside string
  | NotPeriodic string
  | FaceCount nat nat
  | NoNeighbors real
  | AllTooClose real
  | NoSuitable
  | IndexError
  | ZeroSizeReduction
  | FloatToInt

section \<open>Array primitives used by the site selection\<close>

text \<open>\<open>dists <= r\<close>: the element-wise comparison giving a Boolean matrix.\<close>

definition contact_matrix :: "real list list \<Rightarrow> real \<Rightarrow> bool list list" where
  "contact_matrix dists r = map (map (\<lambda>d. d \<le> r)) dists"

text \<open>\<open>np.any(cm)\<close> over the whole matrix.\<close>

definition np_any :: "bool list list \<Rightarrow> bool" where
  "np_any m = list_ex (list_ex id) m"

text \<open>\<open>np.any(cm, axis=1)\<close>: one Boolean per row.\<close>

definition any_axis1 :: "bool list list \<Rightarrow> bool list" where
  "any_axis1 m = map (list_ex id) m"

text \<open>\<open>np.all(mask)\<close>.\<close>

definition np_all :: "bool list \<Rightarrow> bool" where
  "np_all bs = list_all id bs"

text \<open>\<open>np.sum(cm, axis=1)\<close>: the number of \<open>True\<close> entries of each row.\<close>

definition sum_axis1 :: "bool list list \<Rightarrow> nat list" where
  "sum_axis1 m = map (\<lambda>row. length (filter id row)) m"

text \<open>\<open>np.flatnonzero(mask)\<close>: the indices of the \<open>True\<close> entries, ascending.\<close>

definition flatnonzero :: "bool list \<Rightarrow> nat list" where
  "flatnonzero bs = filter (\<lambda>i. bs ! i) [0..<length bs]"

text \<open>\<open>xs[mask]\<close>: Boolean-mask indexing with a mask of the length of \<open>xs\<close>.\<close>

definition mask_select :: "'a list \<Rightarrow> bool list \<Rightarrow> 'a list" where
  "mask_select xs msk = map fst (filter snd (zip xs msk))"

text \<open>
  \<open>np.min(xs)\<close>: raises \<open>ValueError\<close> (zero-size array to reduction operation) on an
  empty array.
\<close>

definition np_min :: "('a::linorder) list \<Rightarrow> error + 'a" where
  "np_min xs = (case xs of [] \<Rightarrow> Inl ZeroSizeReduction | x # ys \<Rightarrow> Inr (fold min ys x))"

text \<open>
  \<open>np.setdiff1d(xs, ys, assume_unique=True)\<close>: the elements of \<open>xs\<close> not in \<open>ys\<close>, in
  the order of \<open>xs\<close>.
\<close>

definition setdiff1d :: "nat list \<Rightarrow> nat list \<Rightarrow> nat list" where
  "setdiff1d xs ys = filter (\<lambda>x. x \<notin> set ys) xs"

text \<open>
  \<open>np.argmax(xs)\<close>: the index of the first occurrence of the maximum; the scan replaces
  the running best only by a strictly larger value. Raises on an empty array.
\<close>

fun argmax_scan :: "('a::linorder) list \<Rightarrow> nat \<Rightarrow> 'a \<Rightarrow> nat \<Rightarrow> nat" where
  "argmax_scan [] i best bi = bi"
| "argmax_scan (x # xs) i best bi =
     (if best < x then argmax_scan xs (Suc i) x i else argmax_scan xs (Suc i) best bi)"

definition np_argmax :: "('a::linorder) list \<Rightarrow> error + nat" where
  "np_argmax xs =
     (case xs of [] \<Rightarrow> Inl ZeroSizeReduction | x # ys \<Rightarrow> Inr (argmax_scan ys 1 x 0))"

section \<open>Selection of the insertion point\<close>

text \<open>
  The loop filling \<open>min_dists\<close>: for each suitable hexagon center the minimum of its
  distances that are contacts, \<open>np.min(dists[hex_ix][cm[hex_ix]])\<close>.
\<close>

fun min_dists_loop :: "real list list \<Rightarrow> bool list list \<Rightarrow> nat list \<Rightarrow> error + real list" where
  "min_dists_loop dists cm [] = Inr []"
| "min_dists_loop dists cm (h # hs) =
     (case np_min (mask_select (dists ! h) (cm ! h)) of
        Inl e \<Rightarrow> Inl e
      | Inr d \<Rightarrow>
          (case min_dists_loop dists cm hs of
             Inl e \<Rightarrow> Inl e
           | Inr ds \<Rightarrow> Inr (d # ds)))"

text \<open>
  Construction of the suitable hexagon centers from the neighbor counts and the
  too-close mask: the centers with the fewest neighbors (the minimum is taken over the
  centers that are not too close), without the centers that are too close.
\<close>

definition suitable_ixs :: "nat list \<Rightarrow> bool list \<Rightarrow> error + nat list" where
  "suitable_ixs n_neighbors too_close =
     (case np_min (mask_select n_neighbors (map Not too_close)) of
        Inl e \<Rightarrow> Inl e
      | Inr m \<Rightarrow>
          (let hex_ixs = flatnonzero (map (\<lambda>n. n = m) n_neighbors);
               hex_ixs_too_close = flatnonzero too_close
           in Inr (setdiff1d hex_ixs hex_ixs_too_close)))"

record selection =
  insertion_point :: pos
  hex_ix_best :: nat
  hex_ixs :: "nat list"
  min_dists :: "real list"
  n_neighbors :: "nat list"

text \<open>
  The site selection of the script from the distance matrix on: \<open>dists\<close> has one row per
  hexagon center and one column per electrolyte atom, \<open>r_cut\<close> is the neighbor cutoff and
  \<open>sigma_Li\<close> the distance below which a neighbor is too close.
\<close>

definition select_site :: "pos list \<Rightarrow> real list list \<Rightarrow> real \<Rightarrow> real \<Rightarrow> error + selection" where
  "select_site hex_centers dists r_cut sigma_Li =
     (let cm = contact_matrix dists r_cut in
      if \<not> np_any cm then Inl (NoNeighbors r_cut)
      else
        let cm_too_close = contact_matrix dists sigma_Li;
            too_close = any_axis1 cm_too_close
        in
        if np_all too_close then Inl (AllTooClose sigma_Li)
        else
          let nn = sum_axis1 cm in
          (case suitable_ixs nn too_close of
             Inl e \<Rightarrow> Inl e
           | Inr ixs \<Rightarrow>
               if length ixs = 0 then Inl NoSuitable
               else
                 (case min_dists_loop dists cm ixs of
                    Inl e \<Rightarrow> Inl e
                  | Inr mds \<Rightarrow>
                      (case np_argmax mds of
                         Inl e \<Rightarrow> Inl e
                       | Inr k \<Rightarrow>
                           let best = ixs ! k in
                           if best < length hex_centers
                           then Inr \<lparr>insertion_point = hex_centers ! best,
                                     hex_ix_best = best,
                                     hex_ixs = ixs,
                                     min_dists = mds,
                                     n_neighbors = nn\<rparr>
                           else Inl IndexError))))"


section \<open>The notions of the specification\<close>

text \<open>
  The neighbor count of a candidate: the number of entries of its row of the distance
  matrix that are at most the cutoff.
\<close>

definition neighbor_count :: "real \<Rightarrow> real list \<Rightarrow> nat" where
  "neighbor_count r row = length (filter (\<lambda>d. d \<le> r) row)"

text \<open>A candidate is disqualified if some entry of its row is at most \<open>r_min\<close>.\<close>

definition disqualified :: "real \<Rightarrow> real list \<Rightarrow> bool" where
  "disqualified s row = (\<exists>d\<in>set row. d \<le> s)"

text \<open>
  The nearest-neighbor distance of a candidate: the minimum of the entries of its row
  that are at most the cutoff.
\<close>

definition nearest_dist :: "real \<Rightarrow> real list \<Rightarrow> real" where
  "nearest_dist r row = Min {d \<in> set row. d \<le> r}"

text \<open>
  The suitable candidates in ascending index order: not disqualified, and with the
  minimum neighbor count among the candidates that are not disqualified.
\<close>

definition suitable_list :: "real \<Rightarrow> real \<Rightarrow> real list list \<Rightarrow> nat list" where
  "suitable_list r s dists =
     filter (\<lambda>i. neighbor_count r (dists ! i) =
                    Min (neighbor_count r ` {row \<in> set dists. \<not> disqualified s row})
                  \<and> \<not> disqualified s (dists ! i)) [0..<length dists]"

section \<open>The constants of the script\<close>

text \<open>
  Lennard-Jones sizes of lithium and of graphene carbon, the Good-Hope combined size, the
  Li-C equilibrium distance, the side length of the hexagons, the shift of the hexagon
  centers along the surface normal and the neighbor cutoff.
\<close>

definition sigma_Li :: real where
  "sigma_Li = 212645 / 100000"

definition sigma_C :: real where
  "sigma_C = 355 / 100"

definition sigma_Li_C :: real where
  "sigma_Li_C = sqrt (sigma_Li * sigma_C)"

definition r_eq :: real where
  "r_eq = 2 powr (1 / 6) * sigma_Li_C"

definition r0 :: real where
  "r0 = 142 / 100"

definition z_shift :: real where
  "z_shift = sqrt (r_eq\<^sup>2 - r0\<^sup>2)"

definition r_cut :: real where
  "r_cut = r_eq + sigma_Li"

section \<open>Library functions used by the lattice code\<close>

text \<open>
  \<open>np.isclose(a, 0, rtol=0, atol=tol)\<close> and each comparison of
  \<open>np.allclose(a, b, rtol=0, atol=tol)\<close>: the absolute difference is at most \<open>tol\<close>.
\<close>

definition isclose :: "real \<Rightarrow> real \<Rightarrow> real \<Rightarrow> bool" where
  "isclose a b tol = (\<bar>a - b\<bar> \<le> tol)"

definition allclose :: "real list \<Rightarrow> real \<Rightarrow> real \<Rightarrow> bool" where
  "allclose xs b tol = list_all (\<lambda>a. isclose a b tol) xs"

text \<open>
  The remainder \<open>a % b\<close> of numpy floats: it has the sign of the divisor, and a zero
  divisor gives \<open>nan\<close>, modelled by \<open>None\<close>.
\<close>

definition float_mod :: "real \<Rightarrow> real \<Rightarrow> real option" where
  "float_mod a b = (if b = 0 then None else Some (a - b * of_int \<lfloor>a / b\<rfloor>))"

text \<open>\<open>np.isclose(a % b, 0, rtol=0, atol=tol)\<close>; a \<open>nan\<close> is close to nothing.\<close>

definition mod_isclose :: "real \<Rightarrow> real \<Rightarrow> real \<Rightarrow> bool" where
  "mod_isclose a b tol = (case float_mod a b of None \<Rightarrow> False | Some m \<Rightarrow> isclose m 0 tol)"

text \<open>
  \<open>int(np.ceil(-np.log10(tol)))\<close>: the conversion to \<open>int\<close> raises for the infinity that
  \<open>tol = 0\<close> gives and for the \<open>nan\<close> that a negative \<open>tol\<close> gives.
\<close>

definition precision_of :: "real \<Rightarrow> error + int" where
  "precision_of tol = (if tol \<le> 0 then Inl FloatToInt else Inr \<lceil>- log 10 tol\<rceil>)"

text \<open>
  \<open>np.lexsort(keys)\<close>: an indirect stable sort on a sequence of keys, the last key being
  the primary one. It is the composition of stable sorts of the index list, one per key,
  from the first key to the last.
\<close>

definition lexsort :: "real list list \<Rightarrow> nat \<Rightarrow> nat list" where
  "lexsort keys n = fold (\<lambda>k ixs. sort_key (\<lambda>i. k ! i) ixs) keys [0..<n]"

text \<open>
  \<open>apply_PBC\<close> moves every position into the primary unit cell; the model takes the
  map on one position as a parameter \<open>wrap\<close> and applies it row by row. \<open>np.round\<close>
  rounds every coordinate to a number of decimals; the model takes the rounding of
  one number as a parameter \<open>rnd\<close>.
\<close>

definition apply_PBC :: "(box \<Rightarrow> pos \<Rightarrow> pos) \<Rightarrow> pos list \<Rightarrow> box \<Rightarrow> pos list" where
  "apply_PBC wrap verts b = map (wrap b) verts"

definition np_round :: "(int \<Rightarrow> real \<Rightarrow> real) \<Rightarrow> pos list \<Rightarrow> int \<Rightarrow> pos list" where
  "np_round rnd ps decimals =
     map (\<lambda>p. (rnd decimals (px p), rnd decimals (py p), rnd decimals (pz p))) ps"

text \<open>
  Instances of the two parameters for concrete runs. For an orthorhombic cell
  \<open>apply_PBC\<close> brings each coordinate into \<open>[0, l)\<close> by subtracting a multiple of the
  box length. \<open>np.round\<close> scales by the power of ten, rounds half to even, and scales
  back.
\<close>

definition wrap_coord :: "real \<Rightarrow> real \<Rightarrow> real" where
  "wrap_coord l c = c - l * of_int \<lfloor>c / l\<rfloor>"

definition wrap_ortho :: "box \<Rightarrow> pos \<Rightarrow> pos" where
  "wrap_ortho b p = (wrap_coord (lx b) (px p), wrap_coord (ly b) (py p), wrap_coord (lz b) (pz p))"

definition rint :: "real \<Rightarrow> int" where
  "rint x =
     (let f = \<lfloor>x\<rfloor>; r = x - of_int f
      in if r < 1 / 2 then f
         else if 1 / 2 < r then f + 1
         else if even f then f else f + 1)"

definition round_decimals :: "int \<Rightarrow> real \<Rightarrow> real" where
  "round_decimals d x =
     (if 0 \<le> d then of_int (rint (x * 10 ^ nat d)) / 10 ^ nat d
      else of_int (rint (x / 10 ^ nat (- d))) * 10 ^ nat (- d))"

section \<open>Validation of the hexagonal lattice\<close>

text \<open>
  The pair \<open>(ix0, ix1)\<close> of box indices for a value of \<open>flatside\<close>, and the entry of the
  box and the name of the direction for an index.
\<close>

definition flatside_axes :: "string \<Rightarrow> error + nat \<times> nat" where
  "flatside_axes flatside =
     (if flatside = ''x'' then Inr (0, 1)
      else if flatside = ''y'' then Inr (1, 0)
      else Inl (BadFlatside flatside))"

definition box_len :: "box \<Rightarrow> nat \<Rightarrow> real" where
  "box_len b ix = (if ix = 0 then lx b else ly b)"

definition direction :: "nat \<Rightarrow> string" where
  "direction ix = (if ix = 0 then ''x'' else ''y'')"

text \<open>
  \<open>check_hex_lattice\<close>: the result \<open>Inr ()\<close> is the return without exception. Reading
  \<open>verts[0, 2]\<close> of an empty array raises \<open>IndexError\<close>.
\<close>

definition check_hex_lattice ::
  "(box \<Rightarrow> pos \<Rightarrow> pos) \<Rightarrow> pos list \<Rightarrow> real \<Rightarrow> box \<Rightarrow> string \<Rightarrow> real \<Rightarrow> error + unit" where
  "check_hex_lattice wrap verts r b flatside tol =
     (let verts = apply_PBC wrap verts b in
      case verts of
        [] \<Rightarrow> Inl IndexError
      | v0 # _ \<Rightarrow>
          if \<not> allclose (map pz verts) (pz v0) tol then Inl NotFlat
          else
            (case flatside_axes flatside of
               Inl e \<Rightarrow> Inl e
             | Inr (ix0, ix1) \<Rightarrow>
                 if \<not> mod_isclose (box_len b ix0) (r * 3) tol
                 then Inl (NotPeriodic (direction ix0))
                 else if \<not> mod_isclose (box_len b ix1) (r * sqrt 3) tol
                 then Inl (NotPeriodic (direction ix1))
                 else Inr ()))"

section \<open>Face centers from vertices\<close>

text \<open>\<open>faces[:, 0] += r0\<close> and \<open>faces[:, 1] += r0\<close>.\<close>

definition shift_x :: "real \<Rightarrow> pos list \<Rightarrow> pos list" where
  "shift_x r ps = map (\<lambda>p. (px p + r, py p, pz p)) ps"

definition shift_y :: "real \<Rightarrow> pos list \<Rightarrow> pos list" where
  "shift_y r ps = map (\<lambda>p. (px p, py p + r, pz p)) ps"

text \<open>\<open>np.isin(xs, ys, invert=True)\<close>: for each element of \<open>xs\<close> whether it is not in \<open>ys\<close>.\<close>

definition isin_invert :: "real list \<Rightarrow> real list \<Rightarrow> bool list" where
  "isin_invert xs ys = map (\<lambda>x. x \<notin> set ys) xs"

text \<open>
  \<open>hex_verts2faces\<close>: the vertices are validated and wrapped, the copies are shifted by
  the side length along \<open>flatside\<close> and wrapped again, both arrays are rounded, the
  shifted copies whose coordinate along \<open>flatside\<close> is no coordinate of a vertex are
  kept, their number is compared with half the number of vertices, and they are returned
  in the order of \<open>np.lexsort(faces[:, ::-1].T)\<close>, whose keys are the columns
  \<open>z\<close>, \<open>y\<close>, \<open>x\<close>. The second test of \<open>flatside\<close> has the two branches \<open>x\<close> and
  \<open>y\<close> only; any other value has left through the \<open>raise\<close> of the first test.
\<close>

definition hex_verts2faces ::
  "(box \<Rightarrow> pos \<Rightarrow> pos) \<Rightarrow> (int \<Rightarrow> real \<Rightarrow> real) \<Rightarrow>
   pos list \<Rightarrow> real \<Rightarrow> box \<Rightarrow> string \<Rightarrow> real \<Rightarrow> error + pos list" where
  "hex_verts2faces wrap rnd verts r b flatside tol =
     (case check_hex_lattice wrap verts r b flatside tol of
        Inl e \<Rightarrow> Inl e
      | Inr _ \<Rightarrow>
          let verts = apply_PBC wrap verts b;
              faces = verts
          in
          (case (if flatside = ''x'' then Inr (shift_x r faces)
                 else if flatside = ''y'' then Inr (shift_y r faces)
                 else Inl (BadFlatside flatside)) of
             Inl e \<Rightarrow> Inl e
           | Inr faces \<Rightarrow>
               let faces = apply_PBC wrap faces b in
               (case precision_of tol of
                  Inl e \<Rightarrow> Inl e
                | Inr precision \<Rightarrow>
                    let faces = np_round rnd faces precision;
                        verts = np_round rnd verts precision;
                        valid = (if flatside = ''x''
                                 then isin_invert (map px faces) (map px verts)
                                 else isin_invert (map py faces) (map py verts));
                        faces = mask_select faces valid
                    in
                    if 2 * length faces \<noteq> length verts
                    then Inl (FaceCount (length faces) (length verts))
                    else
                      let ix_sort = lexsort [map pz faces, map py faces, map px faces]
                                      (length faces)
                      in Inr (map (\<lambda>i. faces ! i) ix_sort))))"

section \<open>Candidate positions\<close>

text \<open>\<open>hex_centers[:, 2] += z_shift\<close>.\<close>

definition shift_z :: "real \<Rightarrow> pos list \<Rightarrow> pos list" where
  "shift_z dz ps = map (\<lambda>p. (px p, py p, pz p + dz)) ps"

text \<open>\<open>z_pos = hex_centers[0][2]\<close>; an empty array raises \<open>IndexError\<close>.\<close>

definition z_pos :: "pos list \<Rightarrow> error + real" where
  "z_pos hex_centers = (case hex_centers of [] \<Rightarrow> Inl IndexError | c # _ \<Rightarrow> Inr (pz c))"

text \<open>
  \<open>distance_array\<close>: the matrix of the distances between every hexagon center and
  every atom; the periodic distance of two positions is a parameter.
\<close>

definition distance_array :: "(pos \<Rightarrow> pos \<Rightarrow> real) \<Rightarrow> pos list \<Rightarrow> pos list \<Rightarrow> real list list" where
  "distance_array pdist cs atoms = map (\<lambda>c. map (pdist c) atoms) cs"

text \<open>
  The search for the insertion point as the script runs it: the face centers are
  shifted, the electrolyte atoms are restricted to the window of \<open>z\<close> around \<open>z_pos\<close>,
  the distance matrix is computed and the site is selected.
\<close>

definition find_insertion_point ::
  "(pos \<Rightarrow> pos \<Rightarrow> real) \<Rightarrow> pos list \<Rightarrow> pos list \<Rightarrow> real \<Rightarrow> real \<Rightarrow> real \<Rightarrow> error + selection" where
  "find_insertion_point pdist faces atoms dz rc smin =
     (let hex_centers = shift_z dz faces in
      case z_pos hex_centers of
        Inl e \<Rightarrow> Inl e
      | Inr zp \<Rightarrow>
          let zmin = zp - rc;
              zmax = zp + rc;
              elyt = filter (\<lambda>a. zmin \<le> pz a \<and> pz a \<le> zmax) atoms;
              dists = distance_array pdist hex_centers elyt
          in select_site hex_centers dists rc smin)"

section \<open>The order of the returned faces\<close>

text \<open>
  The lexicographic order on positions with \<open>x\<close> as primary, \<open>y\<close> as secondary and \<open>z\<close>
  as tertiary key.
\<close>

definition lex_le :: "pos \<Rightarrow> pos \<Rightarrow> bool" where
  "lex_le p q =
     (px p < px q \<or> (px p = px q \<and> (py p < py q \<or> (py p = py q \<and> pz p \<le> pz q))))"

section \<open>A small graphene sheet\<close>

text \<open>
  One rectangular cell of a graphene sheet with the hexagon edges along \<open>x\<close>, in
  Angstrom with the two decimals of a structure file: four carbon atoms in a cell of
  4.26 by 2.46, the first atom at \<open>(0.3, 0.2)\<close>. The height of the third atom is a
  parameter.
\<close>

definition gra_cell :: box where
  "gra_cell = \<lparr>lx = 426 / 100, ly = 246 / 100, lz = 50, alpha = 90, beta = 90, gamma = 90\<rparr>"

definition gra_verts :: "real \<Rightarrow> pos list" where
  "gra_verts z =
     [(30 / 100, 20 / 100, 10), (101 / 100, 143 / 100, 10), (243 / 100, 143 / 100, z),
      (314 / 100, 20 / 100, 10)]"

section \<open>Facts about the array primitives\<close>

lemma mask_select_map: "mask_select (map f xs) (map P xs) = map f (filter P xs)"
  by (induction xs) (simp_all add: mask_select_def)

lemma mask_select_self: "mask_select xs (map P xs) = filter P xs"
  using mask_select_map [of "\<lambda>x. x" xs P] by simp

lemma np_min_Inr:
  assumes "xs \<noteq> []"
  shows "np_min xs = Inr (Min (set xs))"
proof (cases xs)
  case Nil
  with assms show ?thesis by simp
next
  case (Cons a ys)
  show ?thesis
    using Min.set_eq_fold [of a ys] by (simp add: np_min_def Cons)
qed

lemma np_min_Nil: "np_min [] = Inl ZeroSizeReduction"
  by (simp add: np_min_def)

lemma flatnonzero_map: "flatnonzero (map P xs) = filter (\<lambda>i. P (xs ! i)) [0..<length xs]"
  unfolding flatnonzero_def by (rule filter_cong) simp_all

lemma sum_axis1_contact: "sum_axis1 (contact_matrix dists r) = map (neighbor_count r) dists"
  by (simp add: sum_axis1_def contact_matrix_def neighbor_count_def length_filter_map comp_def)

lemma any_axis1_contact: "any_axis1 (contact_matrix dists s) = map (disqualified s) dists"
  by (simp add: any_axis1_def contact_matrix_def disqualified_def list_ex_iff)

lemma np_any_contact:
  "np_any (contact_matrix dists r) \<longleftrightarrow> (\<exists>row\<in>set dists. \<exists>d\<in>set row. d \<le> r)"
  by (auto simp add: np_any_def contact_matrix_def list_ex_iff)

lemma np_all_map: "np_all (map P xs) \<longleftrightarrow> (\<forall>x\<in>set xs. P x)"
  by (simp add: np_all_def list_all_iff)

lemma suitable_ixs_eq:
  assumes "\<not> (\<forall>row\<in>set dists. disqualified s row)"
  shows "suitable_ixs (map (neighbor_count r) dists) (map (disqualified s) dists) =
     Inr (filter (\<lambda>i. neighbor_count r (dists ! i) =
                        Min (neighbor_count r ` {row \<in> set dists. \<not> disqualified s row})
                      \<and> \<not> disqualified s (dists ! i)) [0..<length dists])"
proof -
  let ?ok = "filter (\<lambda>row. \<not> disqualified s row) dists"
  have sel: "mask_select (map (neighbor_count r) dists) (map Not (map (disqualified s) dists))
      = map (neighbor_count r) ?ok"
    using mask_select_map [of "neighbor_count r" dists "\<lambda>row. \<not> disqualified s row"]
    by (simp add: comp_def)
  have ne: "map (neighbor_count r) ?ok \<noteq> []"
    using assms by (auto simp add: filter_empty_conv)
  have st: "set (map (neighbor_count r) ?ok) = neighbor_count r ` {row \<in> set dists. \<not> disqualified s row}"
    by auto
  have tc: "set (flatnonzero (map (disqualified s) dists)) = {i. i < length dists \<and> disqualified s (dists ! i)}"
    by (auto simp add: flatnonzero_map)
  have "setdiff1d (flatnonzero (map (\<lambda>n. n = m) (map (neighbor_count r) dists)))
          (flatnonzero (map (disqualified s) dists)) =
        filter (\<lambda>i. neighbor_count r (dists ! i) = m \<and> \<not> disqualified s (dists ! i))
          [0..<length dists]" for m
    using flatnonzero_map [of "\<lambda>row. neighbor_count r row = m" dists]
    by (auto simp add: setdiff1d_def tc comp_def intro!: filter_cong)
  then show ?thesis
    unfolding suitable_ixs_def sel np_min_Inr [OF ne] st
    by (simp add: Let_def)
qed


lemma nearest_dist_filter: "nearest_dist r row = Min (set (filter (\<lambda>d. d \<le> r) row))"
  by (simp add: nearest_dist_def conj_commute)

lemma min_dists_loop_eq:
  assumes "\<forall>i\<in>set ixs. i < length dists"
  shows "min_dists_loop dists (contact_matrix dists r) ixs =
     (if \<forall>i\<in>set ixs. 0 < neighbor_count r (dists ! i)
      then Inr (map (\<lambda>i. nearest_dist r (dists ! i)) ixs)
      else Inl ZeroSizeReduction)"
  using assms
proof (induction ixs)
  case Nil
  show ?case by simp
next
  case (Cons h hs)
  have h: "h < length dists" using Cons.prems by simp
  have row: "mask_select (dists ! h) (contact_matrix dists r ! h) = filter (\<lambda>d. d \<le> r) (dists ! h)"
    using h by (simp add: contact_matrix_def mask_select_self)
  have IH: "min_dists_loop dists (contact_matrix dists r) hs =
     (if \<forall>i\<in>set hs. 0 < neighbor_count r (dists ! i)
      then Inr (map (\<lambda>i. nearest_dist r (dists ! i)) hs)
      else Inl ZeroSizeReduction)"
    using Cons by simp
  show ?case
  proof (cases "filter (\<lambda>d. d \<le> r) (dists ! h) = []")
    case True
    then show ?thesis
      by (simp add: row np_min_Nil neighbor_count_def)
  next
    case False
    then have pos: "0 < neighbor_count r (dists ! h)"
      by (simp add: neighbor_count_def)
    show ?thesis
      using pos by (simp add: row np_min_Inr [OF False] IH nearest_dist_filter)
  qed
qed

lemma argmax_scan_spec:
  assumes "bi < length pre" and "pre ! bi = best" and "\<forall>x\<in>set pre. x \<le> best"
    and "\<forall>j<bi. pre ! j < best" and "i = length pre"
  shows "argmax_scan xs i best bi < length (pre @ xs) \<and>
         (\<forall>x\<in>set (pre @ xs). x \<le> (pre @ xs) ! argmax_scan xs i best bi) \<and>
         (\<forall>j<argmax_scan xs i best bi. (pre @ xs) ! j < (pre @ xs) ! argmax_scan xs i best bi)"
  using assms
proof (induction xs arbitrary: pre i best bi)
  case Nil
  then show ?case by simp
next
  case (Cons x xs)
  show ?case
  proof (cases "best < x")
    case True
    have a: "length pre < length (pre @ [x])" by simp
    have b: "(pre @ [x]) ! length pre = x" by simp
    have c: "\<forall>y\<in>set (pre @ [x]). y \<le> x"
      using Cons.prems(3) True by auto
    have d: "\<forall>j<length pre. (pre @ [x]) ! j < x"
    proof (intro allI impI)
      fix j assume "j < length pre"
      then have "pre ! j \<in> set pre" by simp
      then have "pre ! j \<le> best" using Cons.prems(3) by blast
      then show "(pre @ [x]) ! j < x"
        using True \<open>j < length pre\<close> by (simp add: nth_append)
    qed
    have e: "Suc i = length (pre @ [x])" using Cons.prems(5) by simp
    from Cons.IH [OF a b c d e] show ?thesis
      using True Cons.prems(5) by simp
  next
    case False
    have a: "bi < length (pre @ [x])" using Cons.prems(1) by simp
    have b: "(pre @ [x]) ! bi = best" using Cons.prems(1,2) by (simp add: nth_append)
    have c: "\<forall>y\<in>set (pre @ [x]). y \<le> best"
      using Cons.prems(3) False by auto
    have d: "\<forall>j<bi. (pre @ [x]) ! j < best"
      using Cons.prems(1,4) by (simp add: nth_append)
    have e: "Suc i = length (pre @ [x])" using Cons.prems(5) by simp
    from Cons.IH [OF a b c d e] show ?thesis
      using False by simp
  qed
qed

lemma np_argmax_spec:
  assumes "np_argmax xs = Inr k"
  shows "k < length xs \<and> (\<forall>x\<in>set xs. x \<le> xs ! k) \<and> (\<forall>j<k. xs ! j < xs ! k)"
proof (cases xs)
  case Nil
  with assms show ?thesis by (simp add: np_argmax_def)
next
  case (Cons x ys)
  have k: "k = argmax_scan ys 1 x 0"
    using assms Cons by (simp add: np_argmax_def)
  have "argmax_scan ys 1 x 0 < length ([x] @ ys) \<and>
         (\<forall>y\<in>set ([x] @ ys). y \<le> ([x] @ ys) ! argmax_scan ys 1 x 0) \<and>
         (\<forall>j<argmax_scan ys 1 x 0. ([x] @ ys) ! j < ([x] @ ys) ! argmax_scan ys 1 x 0)"
    by (rule argmax_scan_spec) simp_all
  then show ?thesis using k Cons by simp
qed

lemma np_argmax_total: "xs \<noteq> [] \<Longrightarrow> \<exists>k. np_argmax xs = Inr k"
  by (cases xs) (simp_all add: np_argmax_def)



lemma suitable_list_bound: "i \<in> set (suitable_list r s dists) \<Longrightarrow> i < length dists"
  by (simp add: suitable_list_def)

lemma suitable_list_sorted: "sorted (suitable_list r s dists)"
  by (simp add: suitable_list_def sorted_wrt_filter)

lemma suitable_list_distinct: "distinct (suitable_list r s dists)"
  by (simp add: suitable_list_def)

lemma suitable_list_nonempty:
  assumes "\<not> (\<forall>row\<in>set dists. disqualified s row)"
  shows "suitable_list r s dists \<noteq> []"
proof -
  let ?S = "{row \<in> set dists. \<not> disqualified s row}"
  have fin: "finite (neighbor_count r ` ?S)" by simp
  have ne: "neighbor_count r ` ?S \<noteq> {}" using assms by auto
  from Min_in [OF fin ne] obtain row where row: "row \<in> set dists" "\<not> disqualified s row"
    and m: "neighbor_count r row = Min (neighbor_count r ` ?S)"
    by auto
  from row(1) obtain i where i: "i < length dists" "dists ! i = row"
    by (auto simp add: in_set_conv_nth)
  have "i \<in> set (suitable_list r s dists)"
    using i row(2) m by (simp add: suitable_list_def)
  then show ?thesis by auto
qed

lemma select_site_unfold:
  "select_site hc dists r s =
     (if \<not> (\<exists>row\<in>set dists. \<exists>d\<in>set row. d \<le> r) then Inl (NoNeighbors r)
      else if \<forall>row\<in>set dists. disqualified s row then Inl (AllTooClose s)
      else if \<not> (\<forall>i\<in>set (suitable_list r s dists). 0 < neighbor_count r (dists ! i))
      then Inl ZeroSizeReduction
      else (case np_argmax (map (\<lambda>i. nearest_dist r (dists ! i)) (suitable_list r s dists)) of
              Inl e \<Rightarrow> Inl e
            | Inr k \<Rightarrow>
                if suitable_list r s dists ! k < length hc
                then Inr \<lparr>insertion_point = hc ! (suitable_list r s dists ! k),
                          hex_ix_best = suitable_list r s dists ! k,
                          hex_ixs = suitable_list r s dists,
                          min_dists = map (\<lambda>i. nearest_dist r (dists ! i)) (suitable_list r s dists),
                          n_neighbors = map (neighbor_count r) dists\<rparr>
                else Inl IndexError))"
proof (cases "\<exists>row\<in>set dists. \<exists>d\<in>set row. d \<le> r")
  case False
  then show ?thesis
    by (simp add: select_site_def np_any_contact)
next
  case any: True
  show ?thesis
  proof (cases "\<forall>row\<in>set dists. disqualified s row")
    case True
    then show ?thesis
      using any by (simp add: select_site_def np_any_contact any_axis1_contact np_all_map)
  next
    case False
    have su: "suitable_ixs (map (neighbor_count r) dists) (map (disqualified s) dists) =
        Inr (suitable_list r s dists)"
      unfolding suitable_list_def by (rule suitable_ixs_eq [OF False])
    have ne: "suitable_list r s dists \<noteq> []"
      by (rule suitable_list_nonempty [OF False])
    have bd: "\<forall>i\<in>set (suitable_list r s dists). i < length dists"
      by (simp add: suitable_list_bound)
    have "select_site hc dists r s =
      (case min_dists_loop dists (contact_matrix dists r) (suitable_list r s dists) of
         Inl e \<Rightarrow> Inl e
       | Inr mds \<Rightarrow>
          (case np_argmax mds of
             Inl e \<Rightarrow> Inl e
           | Inr k \<Rightarrow>
               if suitable_list r s dists ! k < length hc
               then Inr \<lparr>insertion_point = hc ! (suitable_list r s dists ! k),
                         hex_ix_best = suitable_list r s dists ! k,
                         hex_ixs = suitable_list r s dists,
                         min_dists = mds,
                         n_neighbors = map (neighbor_count r) dists\<rparr>
               else Inl IndexError))"
      using any False ne
      by (auto simp add: select_site_def np_any_contact any_axis1_contact np_all_map
          sum_axis1_contact su Let_def split: sum.splits)
    then have eq: "select_site hc dists r s =
      (case (if \<forall>i\<in>set (suitable_list r s dists). 0 < neighbor_count r (dists ! i)
             then Inr (map (\<lambda>i. nearest_dist r (dists ! i)) (suitable_list r s dists))
             else Inl ZeroSizeReduction) of
         Inl e \<Rightarrow> Inl e
       | Inr mds \<Rightarrow>
          (case np_argmax mds of
             Inl e \<Rightarrow> Inl e
           | Inr k \<Rightarrow>
               if suitable_list r s dists ! k < length hc
               then Inr \<lparr>insertion_point = hc ! (suitable_list r s dists ! k),
                         hex_ix_best = suitable_list r s dists ! k,
                         hex_ixs = suitable_list r s dists,
                         min_dists = mds,
                         n_neighbors = map (neighbor_count r) dists\<rparr>
               else Inl IndexError))"
      by (simp only: min_dists_loop_eq [OF bd])
    have c1: "(\<not> (\<exists>row\<in>set dists. \<exists>d\<in>set row. d \<le> r)) = False"
      using any by blast
    have c2: "(\<forall>row\<in>set dists. disqualified s row) = False"
      using False by blast
    show ?thesis
    proof (cases "\<forall>i\<in>set (suitable_list r s dists). 0 < neighbor_count r (dists ! i)")
      case True
      then have c3: "(\<forall>i\<in>set (suitable_list r s dists). 0 < neighbor_count r (dists ! i)) = True"
        by blast
      show ?thesis
        unfolding eq by (simp only: c1 c2 c3 if_True if_False not_True_eq_False sum.case)
    next
      case False
      then have c3: "(\<forall>i\<in>set (suitable_list r s dists). 0 < neighbor_count r (dists ! i)) = False"
        by blast
      show ?thesis
        unfolding eq by (simp only: c1 c2 c3 if_True if_False not_False_eq_True sum.case)
    qed
  qed
qed


lemma np_argmax_error: "np_argmax xs = Inl e \<Longrightarrow> xs = [] \<and> e = ZeroSizeReduction"
  by (cases xs) (simp_all add: np_argmax_def)

lemma nearest_dist_props:
  assumes "0 < neighbor_count r row"
  shows "nearest_dist r row \<in> set row \<and> nearest_dist r row \<le> r \<and>
         (\<forall>d\<in>set row. d \<le> r \<longrightarrow> nearest_dist r row \<le> d)"
proof -
  let ?C = "set (filter (\<lambda>d. d \<le> r) row)"
  have ne: "?C \<noteq> {}" using assms by (simp add: neighbor_count_def del: set_filter)
  have "Min ?C \<in> ?C" by (rule Min_in) (simp_all only: ne finite_set not_False_eq_True)
  moreover have "\<forall>d\<in>?C. Min ?C \<le> d" by (simp del: set_filter)
  ultimately show ?thesis by (simp add: nearest_dist_filter)
qed

lemma select_site_Inr:
  assumes "select_site hc dists r s = Inr res"
  shows "(\<exists>row\<in>set dists. \<exists>d\<in>set row. d \<le> r) \<and>
         \<not> (\<forall>row\<in>set dists. disqualified s row) \<and>
         (\<forall>i\<in>set (suitable_list r s dists). 0 < neighbor_count r (dists ! i)) \<and>
         hex_ixs res = suitable_list r s dists \<and>
         min_dists res = map (\<lambda>i. nearest_dist r (dists ! i)) (suitable_list r s dists) \<and>
         n_neighbors res = map (neighbor_count r) dists \<and>
         (\<exists>k. np_argmax (min_dists res) = Inr k \<and> hex_ix_best res = suitable_list r s dists ! k) \<and>
         hex_ix_best res < length hc \<and>
         insertion_point res = hc ! hex_ix_best res"
  using assms unfolding select_site_unfold
  by (auto split: if_splits sum.splits)

section \<open>Properties of the site selection\<close>

text \<open>
  Claim C4. The selection fails with the "no neighbors" error exactly when no entry of
  the distance matrix is within \<open>r_max\<close>; and when some entry is, it fails with the
  "all too close" error exactly when every candidate has an entry within \<open>r_min\<close>. The
  two errors are different values, and the first check comes first: a matrix without
  contacts gives the first error whatever the second check would say.
\<close>

theorem select_site_failure_variants:
  "(select_site hc dists r_max r_min = Inl (NoNeighbors r_max) \<longleftrightarrow>
      (\<forall>row\<in>set dists. \<forall>d\<in>set row. r_max < d)) \<and>
   ((\<exists>row\<in>set dists. \<exists>d\<in>set row. d \<le> r_max) \<longrightarrow>
      (select_site hc dists r_max r_min = Inl (AllTooClose r_min) \<longleftrightarrow>
         (\<forall>row\<in>set dists. \<exists>d\<in>set row. d \<le> r_min)))"
proof -
  have a: "(\<forall>row\<in>set dists. \<forall>d\<in>set row. r_max < d) \<longleftrightarrow>
           \<not> (\<exists>row\<in>set dists. \<exists>d\<in>set row. d \<le> r_max)"
    by (auto simp add: not_le)
  show ?thesis
    unfolding a select_site_unfold disqualified_def
    by (auto split: sum.splits dest: np_argmax_error)
qed

theorem select_site_failure_variants_witness:
  "select_site [(0, 0, 0), (3, 0, 0)] [[9], [9]] 8 2 = Inl (NoNeighbors 8) \<and>
   select_site [(0, 0, 0), (3, 0, 0)] [[1], [2]] 8 2 = Inl (AllTooClose 2)"
  using select_site_failure_variants [of "[(0, 0, 0), (3, 0, 0)]" "[[9], [9]]" 8 2]
    select_site_failure_variants [of "[(0, 0, 0), (3, 0, 0)]" "[[1], [2]]" 8 2]
  by simp

lemma min_count_indexed:
  "{neighbor_count r (dists ! j) | j. j < length dists \<and> \<not> disqualified s (dists ! j)} =
   neighbor_count r ` {row \<in> set dists. \<not> disqualified s row}"
  by (auto simp add: in_set_conv_nth)

text \<open>
  Claim C2. When not every candidate is disqualified, the suitable centers constructed
  by the script are exactly the candidates whose neighbor count equals the minimum
  neighbor count over the candidates that are not disqualified, without the
  disqualified candidates. No row of a suitable center has an entry at or below
  \<open>r_min\<close>, and a selection that returns reports exactly this list.
\<close>

theorem suitable_set_exact:
  assumes "\<not> (\<forall>i<length dists. disqualified r_min (dists ! i))"
  shows "\<exists>ixs. suitable_ixs (sum_axis1 (contact_matrix dists r_max))
                  (any_axis1 (contact_matrix dists r_min)) = Inr ixs \<and>
            set ixs =
              {i. i < length dists \<and>
                  neighbor_count r_max (dists ! i) =
                    Min {neighbor_count r_max (dists ! j) | j.
                           j < length dists \<and> \<not> disqualified r_min (dists ! j)}}
              - {i. i < length dists \<and> disqualified r_min (dists ! i)} \<and>
            (\<forall>i\<in>set ixs. \<forall>d\<in>set (dists ! i). r_min < d) \<and>
            (\<forall>res. select_site hc dists r_max r_min = Inr res \<longrightarrow> hex_ixs res = ixs)"
proof -
  have nd: "\<not> (\<forall>row\<in>set dists. disqualified r_min row)"
    using assms by (auto simp add: all_set_conv_all_nth)
  have a: "suitable_ixs (sum_axis1 (contact_matrix dists r_max))
          (any_axis1 (contact_matrix dists r_min)) = Inr (suitable_list r_max r_min dists)"
    unfolding sum_axis1_contact any_axis1_contact suitable_list_def
    by (rule suitable_ixs_eq [OF nd])
  have b: "set (suitable_list r_max r_min dists) =
      {i. i < length dists \<and>
          neighbor_count r_max (dists ! i) =
            Min {neighbor_count r_max (dists ! j) | j.
                   j < length dists \<and> \<not> disqualified r_min (dists ! j)}}
      - {i. i < length dists \<and> disqualified r_min (dists ! i)}"
    unfolding min_count_indexed by (auto simp add: suitable_list_def)
  have c: "\<forall>i\<in>set (suitable_list r_max r_min dists). \<forall>d\<in>set (dists ! i). r_min < d"
    by (auto simp add: suitable_list_def disqualified_def not_le)
  have d: "\<forall>res. select_site hc dists r_max r_min = Inr res \<longrightarrow>
      hex_ixs res = suitable_list r_max r_min dists"
    using select_site_Inr by blast
  from a b c d show ?thesis by blast
qed

theorem suitable_set_exact_witness:
  "suitable_ixs (sum_axis1 (contact_matrix [[7, 9], [5, 6], [1, 9]] 8))
      (any_axis1 (contact_matrix [[7, 9], [5, 6], [1, 9]] 2)) = Inr [0] \<and>
   \<not> disqualified 2 [7, 9] \<and> disqualified 2 [1, 9]"
proof -
  have h: "\<not> (\<forall>i<length [[7, 9], [5, 6], [1, 9::real]].
               disqualified 2 ([[7, 9], [5, 6], [1, 9]] ! i))"
    by (auto simp add: disqualified_def intro!: exI [of _ 0])
  have c: "suitable_ixs (sum_axis1 (contact_matrix [[7, 9], [5, 6], [1, 9]] 8))
      (any_axis1 (contact_matrix [[7, 9], [5, 6], [1, 9]] 2)) = Inr [0]"
    by (simp add: suitable_ixs_def sum_axis1_def contact_matrix_def any_axis1_def np_min_def
        mask_select_def flatnonzero_def setdiff1d_def upt_conv_Cons)
  have p: "\<not> disqualified 2 [7, 9] \<and> disqualified 2 [1, 9]"
    by (simp add: disqualified_def)
  show ?thesis
    using suitable_set_exact [OF h, of 8 "[]"] c p by blast
qed

text \<open>
  Claim C9. When some entry of the distance matrix is within \<open>r_max\<close> and not every
  candidate has an entry within \<open>r_min\<close>, the construction of the suitable centers
  returns a list that is not empty, and the selection does not fail with the
  "no suitable center" error.
\<close>

theorem suitable_set_nonempty:
  assumes "\<exists>row\<in>set dists. \<exists>d\<in>set row. d \<le> r_max"
    and "\<not> (\<forall>row\<in>set dists. \<exists>d\<in>set row. d \<le> r_min)"
  shows "(\<exists>ixs. suitable_ixs (sum_axis1 (contact_matrix dists r_max))
                  (any_axis1 (contact_matrix dists r_min)) = Inr ixs \<and> ixs \<noteq> []) \<and>
         select_site hc dists r_max r_min \<noteq> Inl NoSuitable"
proof -
  have nd: "\<not> (\<forall>row\<in>set dists. disqualified r_min row)"
    using assms(2) by (simp add: disqualified_def)
  have "suitable_ixs (sum_axis1 (contact_matrix dists r_max))
          (any_axis1 (contact_matrix dists r_min)) = Inr (suitable_list r_max r_min dists)"
    unfolding sum_axis1_contact any_axis1_contact suitable_list_def
    by (rule suitable_ixs_eq [OF nd])
  moreover have "suitable_list r_max r_min dists \<noteq> []"
    by (rule suitable_list_nonempty [OF nd])
  moreover have "select_site hc dists r_max r_min \<noteq> Inl NoSuitable"
    unfolding select_site_unfold
    by (auto split: sum.splits dest: np_argmax_error)
  ultimately show ?thesis by blast
qed

theorem suitable_set_nonempty_witness:
  "suitable_ixs (sum_axis1 (contact_matrix [[7, 9], [5, 9], [1, 9]] 8))
      (any_axis1 (contact_matrix [[7, 9], [5, 9], [1, 9]] 2)) = Inr [0, 1] \<and>
   select_site [(0, 0, 0), (3, 0, 0), (6, 0, 0)] [[7, 9], [5, 9], [1, 9]] 8 2 \<noteq> Inl NoSuitable"
proof -
  have a: "\<exists>row\<in>set [[7, 9], [5, 9], [1, 9::real]]. \<exists>d\<in>set row. d \<le> 8" by simp
  have b: "\<not> (\<forall>row\<in>set [[7, 9], [5, 9], [1, 9::real]]. \<exists>d\<in>set row. d \<le> 2)" by simp
  have c: "suitable_ixs (sum_axis1 (contact_matrix [[7, 9], [5, 9], [1, 9]] 8))
      (any_axis1 (contact_matrix [[7, 9], [5, 9], [1, 9]] 2)) = Inr [0, 1]"
    by (simp add: suitable_ixs_def sum_axis1_def contact_matrix_def any_axis1_def np_min_def
        mask_select_def flatnonzero_def setdiff1d_def upt_conv_Cons)
  show ?thesis
    using suitable_set_nonempty [OF a b, of "[(0, 0, 0), (3, 0, 0), (6, 0, 0)]"] c by simp
qed

text \<open>
  Claim C10. In every selection that returns, each reported suitable center has a
  nearest-neighbor distance \<open>d\<close> that is an entry of its row, is the least entry within
  \<open>r_max\<close>, and satisfies \<open>r_min < d \<le> r_max\<close>; the best center is one of the
  reported centers, so the bounds hold for it too.
\<close>

theorem reported_nearest_distance_bounds:
  assumes "select_site hc dists r_max r_min = Inr res"
  shows "length (min_dists res) = length (hex_ixs res) \<and>
         (\<forall>k<length (hex_ixs res).
            min_dists res ! k \<in> set (dists ! (hex_ixs res ! k)) \<and>
            (\<forall>d\<in>set (dists ! (hex_ixs res ! k)). d \<le> r_max \<longrightarrow> min_dists res ! k \<le> d) \<and>
            r_min < min_dists res ! k \<and> min_dists res ! k \<le> r_max) \<and>
         (\<exists>k<length (hex_ixs res). hex_ixs res ! k = hex_ix_best res)"
proof -
  let ?S = "suitable_list r_max r_min dists"
  note f = select_site_Inr [OF assms]
  have hx: "hex_ixs res = ?S" and md: "min_dists res = map (\<lambda>i. nearest_dist r_max (dists ! i)) ?S"
    using f by simp_all
  have len: "length (min_dists res) = length (hex_ixs res)"
    by (simp add: hx md)
  have each: "min_dists res ! k \<in> set (dists ! (hex_ixs res ! k)) \<and>
            (\<forall>d\<in>set (dists ! (hex_ixs res ! k)). d \<le> r_max \<longrightarrow> min_dists res ! k \<le> d) \<and>
            r_min < min_dists res ! k \<and> min_dists res ! k \<le> r_max"
    if k: "k < length (hex_ixs res)" for k
  proof -
    let ?i = "?S ! k"
    have mem: "?i \<in> set ?S" using k hx by simp
    have pos: "0 < neighbor_count r_max (dists ! ?i)" using f mem by blast
    have nd: "\<not> disqualified r_min (dists ! ?i)"
      using mem by (simp add: suitable_list_def)
    have v: "min_dists res ! k = nearest_dist r_max (dists ! ?i)"
      using k hx by (simp add: md)
    note p = nearest_dist_props [OF pos]
    have "r_min < nearest_dist r_max (dists ! ?i)"
      using nd p by (auto simp add: disqualified_def not_le)
    then show ?thesis using p by (simp add: v hx)
  qed
  obtain k where k: "np_argmax (min_dists res) = Inr k" "hex_ix_best res = ?S ! k"
    using f by blast
  have "k < length (min_dists res)" using np_argmax_spec [OF k(1)] by simp
  then have best: "\<exists>k<length (hex_ixs res). hex_ixs res ! k = hex_ix_best res"
    using k(2) len hx by auto
  from len each best show ?thesis by blast
qed

theorem reported_nearest_distance_bounds_witness:
  "select_site [(0, 0, 0), (3, 0, 0)] [[5, 3], [7, 15 / 2]] 8 2 =
     Inr \<lparr>insertion_point = (3, 0, 0), hex_ix_best = 1, hex_ixs = [0, 1],
          min_dists = [3, 7], n_neighbors = [2, 2]\<rparr> \<and>
   (2::real) < [3, 7] ! 0 \<and> [3, 7] ! 0 \<le> (8::real) \<and>
   (2::real) < [3, 7] ! 1 \<and> [3, 7] ! 1 \<le> (8::real)"
proof -
  have r: "select_site [(0, 0, 0), (3, 0, 0)] [[5, 3], [7, 15 / 2]] 8 2 =
     Inr \<lparr>insertion_point = (3, 0, 0), hex_ix_best = 1, hex_ixs = [0, 1],
          min_dists = [3, 7], n_neighbors = [2, 2]\<rparr>"
    by (simp add: select_site_def contact_matrix_def np_any_def any_axis1_def np_all_def
        sum_axis1_def suitable_ixs_def np_min_def mask_select_def flatnonzero_def
        setdiff1d_def np_argmax_def upt_conv_Cons)
  show ?thesis
    using reported_nearest_distance_bounds [OF r] r by simp
qed

text \<open>
  Whenever the selection returns, the best center is the suitable center with the
  largest nearest-neighbor distance, and among several with that distance the one with
  the least index; the insertion point is its position.
\<close>

lemma best_site_when_returned:
  assumes "select_site hc dists r_max r_min = Inr res"
  shows "hex_ix_best res \<in> set (hex_ixs res) \<and>
         insertion_point res = hc ! hex_ix_best res \<and>
         (\<forall>i\<in>set (hex_ixs res).
            nearest_dist r_max (dists ! i) \<le> nearest_dist r_max (dists ! hex_ix_best res)) \<and>
         (\<forall>i\<in>set (hex_ixs res).
            nearest_dist r_max (dists ! i) = nearest_dist r_max (dists ! hex_ix_best res) \<longrightarrow>
            hex_ix_best res \<le> i)"
proof -
  let ?S = "suitable_list r_max r_min dists"
  let ?nd = "\<lambda>i. nearest_dist r_max (dists ! i)"
  note f = select_site_Inr [OF assms]
  have hx: "hex_ixs res = ?S" and md: "min_dists res = map ?nd ?S"
    using f by simp_all
  obtain k where k: "np_argmax (map ?nd ?S) = Inr k" "hex_ix_best res = ?S ! k"
    using f md by auto
  note a = np_argmax_spec [OF k(1)]
  have kl: "k < length ?S" using a by simp
  have mem: "hex_ix_best res \<in> set (hex_ixs res)"
    using kl k(2) hx by simp
  have le: "?nd i \<le> ?nd (hex_ix_best res)" if "i \<in> set (hex_ixs res)" for i
  proof -
    have "?nd i \<in> set (map ?nd ?S)" using that hx by simp
    then have "?nd i \<le> map ?nd ?S ! k" using a by blast
    then show ?thesis using kl k(2) by simp
  qed
  have first: "hex_ix_best res \<le> i"
    if i: "i \<in> set (hex_ixs res)" and e: "?nd i = ?nd (hex_ix_best res)" for i
  proof -
    obtain j where j: "j < length ?S" "?S ! j = i"
      using i hx by (auto simp add: in_set_conv_nth)
    have "\<not> j < k"
    proof
      assume "j < k"
      then have "map ?nd ?S ! j < map ?nd ?S ! k" using a by blast
      then show False using j kl k(2) e by simp
    qed
    then have "k \<le> j" by simp
    then have "?S ! k \<le> ?S ! j"
      using suitable_list_sorted [of r_max r_min dists] j(1) by (simp add: sorted_iff_nth_mono)
    then show ?thesis using j(2) k(2) by simp
  qed
  from mem le first f show ?thesis by blast
qed

lemma r_eq_bounds: "2 \<le> r_eq \<and> r_eq \<le> 6"
proof -
  have a: "(1::real) \<le> 2 powr (1 / 6)"
    by (rule ge_one_powr_ge_zero) simp_all
  have "(2::real) powr (1 / 6) \<le> 2 powr 1"
    by (rule powr_mono) simp_all
  then have b: "(2::real) powr (1 / 6) \<le> 2" by simp
  have c: "2 \<le> sigma_Li_C"
    unfolding sigma_Li_C_def sigma_Li_def sigma_C_def
    by (rule real_le_rsqrt) (simp add: power2_eq_square)
  have d: "sigma_Li_C \<le> 3"
    unfolding sigma_Li_C_def sigma_Li_def sigma_C_def
    by (rule real_le_lsqrt) (simp_all add: power2_eq_square)
  have "1 * 2 \<le> 2 powr (1 / 6) * sigma_Li_C"
    by (rule mult_mono [OF a c]) simp_all
  moreover have "2 powr (1 / 6) * sigma_Li_C \<le> 2 * 3"
    by (rule mult_mono [OF b d]) (use c in simp_all)
  ultimately show ?thesis by (simp add: r_eq_def)
qed

lemma r_cut_bounds: "4 < r_cut \<and> r_cut < 9"
  using r_eq_bounds by (simp add: r_cut_def sigma_Li_def)

text \<open>
  Claim C1. With the cutoffs of the script, two hexagon centers 6 apart and one
  electrolyte atom on their line, 9 from the first center and 3 from the second (the
  distance matrix \<open>[[9], [3]]\<close>), both checks pass and the
  first center is the only suitable one (no neighbor within the cutoff, none too close),
  but no insertion point is returned: the minimum over its empty set of contacts raises.
\<close>

theorem select_site_zero_contact_failure:
  "np_any (contact_matrix [[9], [3]] r_cut) \<and>
   \<not> np_all (any_axis1 (contact_matrix [[9], [3]] sigma_Li)) \<and>
   suitable_ixs (sum_axis1 (contact_matrix [[9], [3]] r_cut))
     (any_axis1 (contact_matrix [[9], [3]] sigma_Li)) = Inr [0] \<and>
   select_site [(0, 0, 5), (6, 0, 5)] [[9], [3]] r_cut sigma_Li = Inl ZeroSizeReduction"
proof -
  have a: "\<not> 9 \<le> r_cut" "3 \<le> r_cut" using r_cut_bounds by simp_all
  have b: "\<not> 9 \<le> sigma_Li" "\<not> 3 \<le> sigma_Li" by (simp_all add: sigma_Li_def)
  show ?thesis
    using a b
    by (simp add: select_site_def contact_matrix_def np_any_def any_axis1_def np_all_def
        sum_axis1_def suitable_ixs_def np_min_def mask_select_def flatnonzero_def
        setdiff1d_def upt_conv_Cons)
qed

text \<open>
  The selection returns when both checks pass, every suitable center has a neighbor
  within the cutoff, and the distance matrix has one row per hexagon center.
\<close>

lemma select_site_returns:
  assumes "\<exists>row\<in>set dists. \<exists>d\<in>set row. d \<le> r_max"
    and "\<not> (\<forall>row\<in>set dists. disqualified r_min row)"
    and "\<forall>i\<in>set (suitable_list r_max r_min dists). 0 < neighbor_count r_max (dists ! i)"
    and "length hc = length dists"
  shows "\<exists>res. select_site hc dists r_max r_min = Inr res"
proof -
  let ?S = "suitable_list r_max r_min dists"
  have ne: "map (\<lambda>i. nearest_dist r_max (dists ! i)) ?S \<noteq> []"
    using suitable_list_nonempty [OF assms(2)] by simp
  obtain k where k: "np_argmax (map (\<lambda>i. nearest_dist r_max (dists ! i)) ?S) = Inr k"
    using np_argmax_total [OF ne] by blast
  have "k < length ?S" using np_argmax_spec [OF k] by simp
  then have "?S ! k < length hc"
    using suitable_list_bound [of "?S ! k" r_max r_min dists] assms(4) by simp
  then show ?thesis
    unfolding select_site_unfold using assms(1,2,3) k by simp
qed

section \<open>Facts about the lexicographic sort\<close>

lemma insort_key_lex:
  assumes "sorted_wrt (\<lambda>a b. f a < f b \<or> (f a = f b \<and> R a b)) ys"
    and "\<forall>y\<in>set ys. R x y"
  shows "sorted_wrt (\<lambda>a b. f a < f b \<or> (f a = f b \<and> R a b)) (insort_key f x ys)"
  using assms
proof (induction ys)
  case Nil
  then show ?case by simp
next
  case (Cons y ys)
  show ?case
  proof (cases "f x \<le> f y")
    case True
    have "f x < f z \<or> (f x = f z \<and> R x z)" if z: "z \<in> set (y # ys)" for z
    proof -
      have "f y \<le> f z" using Cons.prems(1) z by auto
      then have "f x \<le> f z" using True by simp
      moreover have "R x z" using Cons.prems(2) z by blast
      ultimately show ?thesis by auto
    qed
    then show ?thesis using True Cons.prems(1) by simp
  next
    case False
    have a: "sorted_wrt (\<lambda>a b. f a < f b \<or> (f a = f b \<and> R a b)) (insort_key f x ys)"
      using Cons by simp
    have "f y < f z \<or> (f y = f z \<and> R y z)" if z: "z \<in> set (insort_key f x ys)" for z
      using z False Cons.prems(1) by (auto simp add: set_insort_key)
    then show ?thesis using False a by simp
  qed
qed

lemma sort_key_lex:
  assumes "sorted_wrt R xs"
  shows "sorted_wrt (\<lambda>a b. f a < f b \<or> (f a = f b \<and> R a b)) (sort_key f xs)"
  using assms
proof (induction xs)
  case Nil
  then show ?case by simp
next
  case (Cons x xs)
  have "\<forall>y\<in>set (sort_key f xs). R x y" using Cons.prems by simp
  moreover have "sorted_wrt (\<lambda>a b. f a < f b \<or> (f a = f b \<and> R a b)) (sort_key f xs)"
    using Cons by simp
  ultimately show ?case by (simp add: insort_key_lex)
qed

lemma lexsort_length: "length (lexsort keys n) = n"
proof -
  have "length (fold (\<lambda>k ixs. sort_key (\<lambda>i. k ! i) ixs) keys ixs) = length ixs"
    for ixs :: "nat list" and keys :: "real list list"
    by (induction keys arbitrary: ixs) simp_all
  then show ?thesis by (simp add: lexsort_def)
qed

lemma lexsort_set: "set (lexsort keys n) = {0..<n}"
proof -
  have "set (fold (\<lambda>k ixs. sort_key (\<lambda>i. k ! i) ixs) keys ixs) = set ixs"
    for ixs :: "nat list" and keys :: "real list list"
    by (induction keys arbitrary: ixs) simp_all
  then show ?thesis by (simp add: lexsort_def)
qed

lemma lexsort3_sorted:
  "sorted_wrt (\<lambda>i j. kx ! i < kx ! j \<or> (kx ! i = kx ! j \<and>
       (ky ! i < ky ! j \<or> (ky ! i = ky ! j \<and> (kz ! i < kz ! j \<or> kz ! i = kz ! j)))))
     (lexsort [kz, ky, kx] n)"
proof -
  have s0: "sorted_wrt (\<lambda>i j. True) [0..<n]" by simp
  have s1: "sorted_wrt (\<lambda>i j. kz ! i < kz ! j \<or> (kz ! i = kz ! j \<and> True))
      (sort_key (\<lambda>i. kz ! i) [0..<n])"
    by (rule sort_key_lex [OF s0])
  have s2: "sorted_wrt (\<lambda>i j. ky ! i < ky ! j \<or> (ky ! i = ky ! j \<and>
        (kz ! i < kz ! j \<or> (kz ! i = kz ! j \<and> True))))
      (sort_key (\<lambda>i. ky ! i) (sort_key (\<lambda>i. kz ! i) [0..<n]))"
    by (rule sort_key_lex [OF s1])
  have s3: "sorted_wrt (\<lambda>i j. kx ! i < kx ! j \<or> (kx ! i = kx ! j \<and>
        (ky ! i < ky ! j \<or> (ky ! i = ky ! j \<and>
        (kz ! i < kz ! j \<or> (kz ! i = kz ! j \<and> True))))))
      (sort_key (\<lambda>i. kx ! i) (sort_key (\<lambda>i. ky ! i) (sort_key (\<lambda>i. kz ! i) [0..<n])))"
    by (rule sort_key_lex [OF s2])
  then show ?thesis by (simp add: lexsort_def)
qed

lemma sorted_faces:
  "sorted_wrt lex_le
     (map (\<lambda>i. fs ! i) (lexsort [map pz fs, map py fs, map px fs] (length fs)))"
proof -
  let ?ixs = "lexsort [map pz fs, map py fs, map px fs] (length fs)"
  have "sorted_wrt (\<lambda>i j. lex_le (fs ! i) (fs ! j)) ?ixs"
  proof (rule sorted_wrt_mono_rel [OF _ lexsort3_sorted])
    fix i j
    assume "i \<in> set ?ixs" and "j \<in> set ?ixs"
    then have b: "i < length fs" "j < length fs" by (simp_all add: lexsort_set)
    assume "map px fs ! i < map px fs ! j \<or> (map px fs ! i = map px fs ! j \<and>
       (map py fs ! i < map py fs ! j \<or> (map py fs ! i = map py fs ! j \<and>
       (map pz fs ! i < map pz fs ! j \<or> map pz fs ! i = map pz fs ! j))))"
    then show "lex_le (fs ! i) (fs ! j)"
      using b by (auto simp add: lex_le_def)
  qed
  then show ?thesis by (simp add: sorted_wrt_map)
qed

section \<open>Facts about the lattice checks\<close>

lemma sqrt3_bounds: "1732 / 1000 < sqrt 3 \<and> sqrt 3 < 17321 / 10000"
proof -
  have "(1732 / 1000)\<^sup>2 < (3::real)" by (simp add: power2_eq_square)
  then have a: "1732 / 1000 < sqrt 3" by (rule real_less_rsqrt)
  have "(3::real) < (17321 / 10000)\<^sup>2" by (simp add: power2_eq_square)
  have b: "sqrt 3 < 17321 / 10000"
    by (rule real_less_lsqrt) (simp_all add: power2_eq_square)
  from a b show ?thesis ..
qed

lemma mod_isclose_iff:
  assumes "0 < m"
  shows "mod_isclose a m tol \<longleftrightarrow> (\<exists>k::int. 0 \<le> a - of_int k * m \<and> a - of_int k * m < m \<and> a - of_int k * m \<le> tol)"
proof
  assume h: "mod_isclose a m tol"
  let ?k = "\<lfloor>a / m\<rfloor>"
  have "of_int ?k \<le> a / m" by (rule of_int_floor_le)
  then have lo: "of_int ?k * m \<le> a" unfolding pos_le_divide_eq [OF assms] .
  have "a / m < of_int ?k + 1" by linarith
  then have hi: "a < (of_int ?k + 1) * m" unfolding pos_divide_less_eq [OF assms] .
  have "\<bar>a - m * of_int ?k\<bar> \<le> tol"
    using h assms by (simp add: mod_isclose_def float_mod_def isclose_def)
  then have "a - of_int ?k * m \<le> tol" by (simp add: mult.commute)
  moreover have "0 \<le> a - of_int ?k * m" using lo by simp
  moreover have "a - of_int ?k * m < m" using hi by (simp add: algebra_simps)
  ultimately show "\<exists>k::int. 0 \<le> a - of_int k * m \<and> a - of_int k * m < m \<and> a - of_int k * m \<le> tol"
    by blast
next
  assume "\<exists>k::int. 0 \<le> a - of_int k * m \<and> a - of_int k * m < m \<and> a - of_int k * m \<le> tol"
  then obtain k :: int where k: "0 \<le> a - of_int k * m" "a - of_int k * m < m" "a - of_int k * m \<le> tol"
    by blast
  have "of_int k \<le> a / m" using k(1) assms by (simp add: pos_le_divide_eq)
  moreover have "a / m < of_int k + 1"
    using k(2) assms by (simp add: pos_divide_less_eq algebra_simps)
  ultimately have fl: "\<lfloor>a / m\<rfloor> = k" by (simp add: floor_unique)
  show "mod_isclose a m tol"
    using k(1,3) assms by (simp add: mod_isclose_def float_mod_def isclose_def fl mult.commute)
qed

lemma precision_milli: "precision_of (1 / 1000) = Inr 3"
proof -
  have "log 10 (10 ^ 3) = real 3" by (rule log_pow_cancel) simp_all
  then have "log 10 1000 = (3::real)" by simp
  then have "log 10 (1 / 1000) = - 3" by (simp add: log_divide)
  then show ?thesis by (simp add: precision_of_def)
qed

lemma periodic_gra:
  "mod_isclose (426 / 100) (r0 * 3) (1 / 1000)"
  "mod_isclose (246 / 100) (r0 * sqrt 3) (1 / 1000)"
proof -
  show "mod_isclose (426 / 100) (r0 * 3) (1 / 1000)"
    by (simp add: mod_isclose_def float_mod_def isclose_def r0_def)
  show "mod_isclose (246 / 100) (r0 * sqrt 3) (1 / 1000)"
    unfolding r0_def
    apply (subst mod_isclose_iff)
     apply simp
    apply (rule exI [of _ 1])
    using sqrt3_bounds by simp
qed

lemma check_gra_tilted:
  "check_hex_lattice wrap_ortho (gra_verts (100009 / 10000)) r0 gra_cell ''x'' (1 / 1000) = Inr ()"
  using periodic_gra
  by (simp add: check_hex_lattice_def apply_PBC_def gra_verts_def gra_cell_def wrap_ortho_def
        wrap_coord_def px_def py_def pz_def allclose_def isclose_def flatside_axes_def
        box_len_def direction_def)

lemma run_gra_tilted:
  "hex_verts2faces wrap_ortho round_decimals (gra_verts (100009 / 10000)) r0 gra_cell ''x''
     (1 / 1000) = Inr [(172 / 100, 20 / 100, 10), (385 / 100, 143 / 100, 10001 / 1000)]"
  apply (simp add: hex_verts2faces_def check_gra_tilted precision_milli)
  apply (simp add: apply_PBC_def gra_verts_def gra_cell_def wrap_ortho_def
        wrap_coord_def px_def py_def pz_def shift_x_def r0_def Let_def)
  apply (simp add: np_round_def round_decimals_def rint_def px_def py_def pz_def Let_def)
  apply (simp add: isin_invert_def mask_select_def lexsort_def px_def py_def pz_def upt_conv_Cons)
  done

section \<open>Properties of the lattice code\<close>

lemma check_hex_lattice_Inr:
  assumes "check_hex_lattice wrap verts r b flatside tol = Inr u"
  shows "verts \<noteq> [] \<and> (flatside = ''x'' \<or> flatside = ''y'')"
  using assms
  by (auto simp add: check_hex_lattice_def apply_PBC_def flatside_axes_def Let_def
      split: list.splits if_splits sum.splits)

lemma hex_verts2faces_Inr:
  assumes "hex_verts2faces wrap rnd verts r b flatside tol = Inr faces"
  shows "check_hex_lattice wrap verts r b flatside tol = Inr () \<and>
         (\<exists>fs. 2 * length fs = length verts \<and>
           faces = map (\<lambda>i. fs ! i) (lexsort [map pz fs, map py fs, map px fs] (length fs)))"
  using assms
  by (auto simp add: hex_verts2faces_def Let_def apply_PBC_def np_round_def
      split: sum.splits if_splits)

lemma length_rounded_verts:
  "length (np_round rnd (apply_PBC wrap verts b) d) = length verts"
  by (simp add: np_round_def apply_PBC_def)

lemma hex_verts2faces_checked:
  assumes "check_hex_lattice wrap verts r b flatside tol = Inr ()" and "0 < tol"
  shows "\<exists>fs. hex_verts2faces wrap rnd verts r b flatside tol =
           (if 2 * length fs \<noteq> length verts
            then Inl (FaceCount (length fs) (length verts))
            else Inr (map (\<lambda>i. fs ! i)
                       (lexsort [map pz fs, map py fs, map px fs] (length fs))))"
proof -
  let ?d = "\<lceil>- log 10 tol\<rceil>"
  let ?V = "np_round rnd (apply_PBC wrap verts b) ?d"
  have p: "precision_of tol = Inr ?d"
    using assms(2) by (simp add: precision_of_def)
  have "flatside = ''x'' \<or> flatside = ''y''"
    using check_hex_lattice_Inr [OF assms(1)] by blast
  then show ?thesis
  proof
    assume x: "flatside = ''x''"
    let ?F = "np_round rnd (apply_PBC wrap (shift_x r (apply_PBC wrap verts b)) b) ?d"
    show ?thesis
      apply (rule exI [of _ "mask_select ?F (isin_invert (map px ?F) (map px ?V))"])
      using assms(1) p x
      apply (simp add: hex_verts2faces_def Let_def length_rounded_verts)
      done
  next
    assume y: "flatside = ''y''"
    let ?F = "np_round rnd (apply_PBC wrap (shift_y r (apply_PBC wrap verts b)) b) ?d"
    show ?thesis
      apply (rule exI [of _ "mask_select ?F (isin_invert (map py ?F) (map py ?V))"])
      using assms(1) p y
      apply (simp add: hex_verts2faces_def Let_def length_rounded_verts)
      done
  qed
qed

text \<open>
  Claim C3. A face set that is returned has exactly half as many positions as there are
  vertices. For a vertex set that the validation accepts and a positive tolerance, the
  call either returns such a face set or raises the face-count error with a count whose
  double is not the number of vertices.
\<close>

theorem face_count_half_or_integrity_error:
  "(\<forall>faces. hex_verts2faces wrap rnd verts r b flatside tol = Inr faces \<longrightarrow>
       2 * length faces = length verts) \<and>
   (check_hex_lattice wrap verts r b flatside tol = Inr () \<and> 0 < tol \<longrightarrow>
      (\<exists>faces. hex_verts2faces wrap rnd verts r b flatside tol = Inr faces \<and>
                2 * length faces = length verts) \<or>
      (\<exists>k. hex_verts2faces wrap rnd verts r b flatside tol = Inl (FaceCount k (length verts)) \<and>
           2 * k \<noteq> length verts))"
proof (intro conjI allI impI)
  fix faces
  assume "hex_verts2faces wrap rnd verts r b flatside tol = Inr faces"
  from hex_verts2faces_Inr [OF this] show "2 * length faces = length verts"
    by (auto simp add: lexsort_length)
next
  assume h: "check_hex_lattice wrap verts r b flatside tol = Inr () \<and> 0 < tol"
  then obtain fs where fs: "hex_verts2faces wrap rnd verts r b flatside tol =
           (if 2 * length fs \<noteq> length verts
            then Inl (FaceCount (length fs) (length verts))
            else Inr (map (\<lambda>i. fs ! i)
                       (lexsort [map pz fs, map py fs, map px fs] (length fs))))"
    using hex_verts2faces_checked by blast
  show "(\<exists>faces. hex_verts2faces wrap rnd verts r b flatside tol = Inr faces \<and>
                2 * length faces = length verts) \<or>
      (\<exists>k. hex_verts2faces wrap rnd verts r b flatside tol = Inl (FaceCount k (length verts)) \<and>
           2 * k \<noteq> length verts)"
  proof (cases "2 * length fs = length verts")
    case True
    then show ?thesis by (simp add: fs lexsort_length)
  next
    case False
    then show ?thesis by (simp add: fs)
  qed
qed

text \<open>
  Claim C7. The returned faces are sorted non-decreasingly in the lexicographic order
  with \<open>x\<close> as primary, \<open>y\<close> as secondary and \<open>z\<close> as tertiary key.
\<close>

theorem faces_sorted_lexicographically:
  assumes "hex_verts2faces wrap rnd verts r b flatside tol = Inr faces"
  shows "sorted_wrt lex_le faces"
proof -
  from hex_verts2faces_Inr [OF assms] obtain fs where
    "faces = map (\<lambda>i. fs ! i) (lexsort [map pz fs, map py fs, map px fs] (length fs))"
    by blast
  then show ?thesis by (simp only: sorted_faces)
qed

lemma check_gra_flat:
  "check_hex_lattice wrap_ortho (gra_verts 10) r0 gra_cell ''x'' (1 / 1000) = Inr ()"
  using periodic_gra
  by (simp add: check_hex_lattice_def apply_PBC_def gra_verts_def gra_cell_def wrap_ortho_def
      wrap_coord_def px_def py_def pz_def allclose_def isclose_def flatside_axes_def
      box_len_def direction_def)

lemma run_gra_flat:
  "hex_verts2faces wrap_ortho round_decimals (gra_verts 10) r0 gra_cell ''x'' (1 / 1000) =
   Inr [(172 / 100, 20 / 100, 10), (385 / 100, 143 / 100, 10)]"
proof -
  show ?thesis
    apply (simp add: hex_verts2faces_def check_gra_flat precision_milli)
    apply (simp add: apply_PBC_def gra_verts_def gra_cell_def wrap_ortho_def
        wrap_coord_def px_def py_def pz_def shift_x_def r0_def Let_def)
    apply (simp add: np_round_def round_decimals_def rint_def px_def py_def pz_def Let_def)
    apply (simp add: isin_invert_def mask_select_def lexsort_def px_def py_def pz_def upt_conv_Cons)
    done
qed

theorem face_count_half_or_integrity_error_witness:
  "check_hex_lattice wrap_ortho (gra_verts 10) r0 gra_cell ''x'' (1 / 1000) = Inr () \<and>
   hex_verts2faces wrap_ortho round_decimals (gra_verts 10) r0 gra_cell ''x'' (1 / 1000) =
     Inr [(172 / 100, 20 / 100, 10), (385 / 100, 143 / 100, 10)] \<and>
   2 * length [(172 / 100, 20 / 100, 10), (385 / 100, 143 / 100, 10 :: real)] = length (gra_verts 10)"
  using face_count_half_or_integrity_error
      [of wrap_ortho round_decimals "gra_verts 10" r0 gra_cell "''x''" "1 / 1000"]
    check_gra_flat run_gra_flat
  by simp

theorem faces_sorted_lexicographically_witness:
  "hex_verts2faces wrap_ortho round_decimals (gra_verts 10) r0 gra_cell ''x'' (1 / 1000) =
     Inr [(172 / 100, 20 / 100, 10), (385 / 100, 143 / 100, 10)] \<and>
   sorted_wrt lex_le [(172 / 100, 20 / 100, 10), (385 / 100, 143 / 100, 10)]"
  using faces_sorted_lexicographically [OF run_gra_flat] run_gra_flat by simp

text \<open>
  Claim C6, amended. For a value of \<open>flatside\<close> other than \<open>x\<close> and \<open>y\<close> and a vertex
  set that is not empty, the call fails with the error naming the value when the wrapped
  vertices are flat within the tolerance, and with the flatness error otherwise: the
  flatness check comes first.
\<close>

theorem bad_flatside_after_flatness:
  assumes "flatside \<noteq> ''x''" and "flatside \<noteq> ''y''" and "verts \<noteq> []"
  shows "hex_verts2faces wrap rnd verts r b flatside tol =
     (if allclose (map pz (apply_PBC wrap verts b)) (pz (hd (apply_PBC wrap verts b))) tol
      then Inl (BadFlatside flatside)
      else Inl NotFlat)"
proof -
  obtain v vs where v: "apply_PBC wrap verts b = v # vs"
    using assms(3) by (cases verts) (simp_all add: apply_PBC_def)
  have "check_hex_lattice wrap verts r b flatside tol =
     (if allclose (map pz (v # vs)) (pz v) tol then Inl (BadFlatside flatside) else Inl NotFlat)"
    using assms(1,2) by (simp add: check_hex_lattice_def v flatside_axes_def)
  then show ?thesis by (simp add: hex_verts2faces_def v)
qed

theorem bad_flatside_after_flatness_witness:
  "hex_verts2faces wrap_ortho round_decimals (gra_verts 10) r0 gra_cell ''z'' (1 / 1000) =
     Inl (BadFlatside ''z'')"
proof -
  have a: "''z'' \<noteq> ''x''" "''z'' \<noteq> ''y''" "gra_verts 10 \<noteq> []"
    by (simp_all add: gra_verts_def)
  show ?thesis
    using bad_flatside_after_flatness [OF a, of wrap_ortho round_decimals r0 gra_cell "1 / 1000"]
    by (simp add: apply_PBC_def gra_verts_def gra_cell_def wrap_ortho_def wrap_coord_def
        px_def py_def pz_def allclose_def isclose_def)
qed

text \<open>
  Claim C6 as stated fails: with \<open>flatside = z\<close> and a sheet whose third atom lies one
  Angstrom above the others, the call raises the flatness error, not the error naming
  the value of \<open>flatside\<close>.
\<close>

theorem bad_flatside_not_flat_counterexample:
  "''z'' \<noteq> ''x'' \<and> ''z'' \<noteq> ''y'' \<and>
   hex_verts2faces wrap_ortho round_decimals (gra_verts 11) r0 gra_cell ''z'' (1 / 1000) =
     Inl NotFlat \<and>
   hex_verts2faces wrap_ortho round_decimals (gra_verts 11) r0 gra_cell ''z'' (1 / 1000) \<noteq>
     Inl (BadFlatside ''z'')"
  by (simp add: hex_verts2faces_def check_hex_lattice_def apply_PBC_def gra_verts_def
      gra_cell_def wrap_ortho_def wrap_coord_def px_def py_def pz_def allclose_def isclose_def)

text \<open>
  A box that the validation accepts, for a positive side length, has both in-plane
  lengths within the tolerance of an integer multiple of the respective period.
\<close>

lemma accepted_box_near_multiples:
  assumes "check_hex_lattice wrap verts r b flatside tol = Inr ()" and "0 < r"
  shows "\<exists>ix0 ix1. flatside_axes flatside = Inr (ix0, ix1) \<and>
           (\<exists>k::int. \<bar>box_len b ix0 - of_int k * (r * 3)\<bar> \<le> tol) \<and>
           (\<exists>k::int. \<bar>box_len b ix1 - of_int k * (r * sqrt 3)\<bar> \<le> tol)"
proof -
  obtain ix0 ix1 where ax: "flatside_axes flatside = Inr (ix0, ix1)"
    and m0: "mod_isclose (box_len b ix0) (r * 3) tol"
    and m1: "mod_isclose (box_len b ix1) (r * sqrt 3) tol"
    using assms(1)
    by (auto simp add: check_hex_lattice_def Let_def split: list.splits if_splits sum.splits)
  have p0: "0 < r * 3" and p1: "0 < r * sqrt 3" using assms(2) by simp_all
  from m0 obtain k0 :: int where "0 \<le> box_len b ix0 - of_int k0 * (r * 3)"
      "box_len b ix0 - of_int k0 * (r * 3) \<le> tol"
    unfolding mod_isclose_iff [OF p0] by blast
  then have a: "\<bar>box_len b ix0 - of_int k0 * (r * 3)\<bar> \<le> tol" by simp
  from m1 obtain k1 :: int where "0 \<le> box_len b ix1 - of_int k1 * (r * sqrt 3)"
      "box_len b ix1 - of_int k1 * (r * sqrt 3) \<le> tol"
    unfolding mod_isclose_iff [OF p1] by blast
  then have c: "\<bar>box_len b ix1 - of_int k1 * (r * sqrt 3)\<bar> \<le> tol" by simp
  from ax a c show ?thesis by blast
qed

text \<open>
  Claim C5. The converse fails: the graphene cell with its length along \<open>x\<close> shortened
  to 4.2599 has both in-plane lengths within the tolerance 0.001 of one period
  (4.26 and \<open>1.42 \<surd>3\<close>), but the validation rejects it in the \<open>x\<close> direction, because
  the remainder 4.2599 of the division by 4.26 is compared with zero only.
\<close>

theorem box_just_below_multiple_rejected:
  "\<bar>box_len (gra_cell\<lparr>lx := 42599 / 10000\<rparr>) 0 - of_int 1 * (r0 * 3)\<bar> \<le> 1 / 1000 \<and>
   \<bar>box_len (gra_cell\<lparr>lx := 42599 / 10000\<rparr>) 1 - of_int 1 * (r0 * sqrt 3)\<bar> \<le> 1 / 1000 \<and>
   check_hex_lattice wrap_ortho (gra_verts 10) r0 (gra_cell\<lparr>lx := 42599 / 10000\<rparr>) ''x''
     (1 / 1000) = Inl (NotPeriodic ''x'')"
proof -
  have a: "\<bar>box_len (gra_cell\<lparr>lx := 42599 / 10000\<rparr>) 0 - of_int 1 * (r0 * 3)\<bar> \<le> 1 / 1000"
    by (simp add: box_len_def gra_cell_def r0_def)
  have b: "\<bar>box_len (gra_cell\<lparr>lx := 42599 / 10000\<rparr>) 1 - of_int 1 * (r0 * sqrt 3)\<bar> \<le> 1 / 1000"
    using sqrt3_bounds by (simp add: box_len_def gra_cell_def r0_def abs_le_iff)
  have m: "\<not> mod_isclose (42599 / 10000) (r0 * 3) (1 / 1000)"
  proof -
    have "\<lfloor>(42599 / 10000) / (426 / 100 :: real)\<rfloor> = 0"
      by (rule floor_unique) simp_all
    then show ?thesis
      by (simp add: mod_isclose_def float_mod_def isclose_def r0_def)
  qed
  have c: "check_hex_lattice wrap_ortho (gra_verts 10) r0 (gra_cell\<lparr>lx := 42599 / 10000\<rparr>) ''x''
     (1 / 1000) = Inl (NotPeriodic ''x'')"
    using m
    by (simp add: check_hex_lattice_def apply_PBC_def gra_verts_def gra_cell_def wrap_ortho_def
        wrap_coord_def px_def py_def pz_def allclose_def isclose_def flatside_axes_def
        box_len_def direction_def)
  from a b c show ?thesis by blast
qed

lemma Inr_of_if: "(if c then Inl e else Inr v) = Inr w \<Longrightarrow> w = v"
  by (simp split: if_splits)

lemma mask_select_subset: "set (mask_select xs msk) \<subseteq> set xs"
  by (auto simp add: mask_select_def dest: set_zip_leftD)

lemma rounded_wrapped_heights:
  assumes "f \<in> set (np_round rnd (apply_PBC wrap ss b) d)"
  shows "\<exists>s\<in>set ss. pz f = rnd d (pz (wrap b s))"
  using assms by (auto simp add: np_round_def apply_PBC_def pz_def)

lemma sorted_selection_subset:
  "set (map (\<lambda>i. fs ! i) (lexsort keys (length fs))) \<subseteq> set fs"
proof
  fix x
  assume "x \<in> set (map (\<lambda>i. fs ! i) (lexsort keys (length fs)))"
  then obtain i where "i \<in> set (lexsort keys (length fs))" "x = fs ! i" by auto
  then show "x \<in> set fs" by (simp add: lexsort_set)
qed

text \<open>
  A returned face set is not empty, and the height of every face is the rounded height
  of a wrapped position that has the height of a wrapped vertex.
\<close>

lemma hex_verts2faces_heights:
  assumes "hex_verts2faces wrap rnd verts r b flatside tol = Inr faces"
  shows "faces \<noteq> [] \<and>
         (\<forall>f\<in>set faces. \<exists>s. (\<exists>v\<in>set verts. pz s = pz (wrap b v)) \<and>
                               pz f = rnd \<lceil>- log 10 tol\<rceil> (pz (wrap b s)))"
proof -
  define d where "d = \<lceil>- log 10 tol\<rceil>"
  define W where "W = apply_PBC wrap verts b"
  define V where "V = np_round rnd W d"
  note f = hex_verts2faces_Inr [OF assms]
  have chk: "check_hex_lattice wrap verts r b flatside tol = Inr ()" using f by blast
  have ne: "verts \<noteq> []" using check_hex_lattice_Inr [OF chk] by blast
  have len: "2 * length faces = length verts"
    using f by (auto simp add: lexsort_length)
  have nonempty: "faces \<noteq> []" using ne len by (cases faces) simp_all
  have tol: "0 < tol"
  proof (rule ccontr)
    assume "\<not> 0 < tol"
    then have "precision_of tol = Inl FloatToInt" by (simp add: precision_of_def)
    then have "\<exists>e. hex_verts2faces wrap rnd verts r b flatside tol = Inl e"
      using chk by (simp add: hex_verts2faces_def Let_def)
    then show False using assms by auto
  qed
  have p: "precision_of tol = Inr d" using tol by (simp add: precision_of_def d_def)
  have fs: "flatside = ''x'' \<or> flatside = ''y''"
    using check_hex_lattice_Inr [OF chk] by blast
  have sub: "\<exists>ss. set faces \<subseteq> set (np_round rnd (apply_PBC wrap ss b) d) \<and>
                 (\<forall>s\<in>set ss. \<exists>v\<in>set verts. pz s = pz (wrap b v))"
    using fs
  proof
    assume x: "flatside = ''x''"
    define F where "F = np_round rnd (apply_PBC wrap (shift_x r W) b) d"
    define fs where "fs = mask_select F (isin_invert (map px F) (map px V))"
    have eq: "hex_verts2faces wrap rnd verts r b flatside tol =
        (if 2 * length fs \<noteq> length verts
         then Inl (FaceCount (length fs) (length verts))
         else Inr (map (\<lambda>i. fs ! i) (lexsort [map pz fs, map py fs, map px fs] (length fs))))"
      unfolding fs_def F_def V_def W_def
      using chk p x
      by (simp add: hex_verts2faces_def Let_def length_rounded_verts)
    have "(if 2 * length fs \<noteq> length verts
         then Inl (FaceCount (length fs) (length verts))
         else Inr (map (\<lambda>i. fs ! i) (lexsort [map pz fs, map py fs, map px fs] (length fs))))
        = Inr faces"
      using assms by (simp only: eq)
    then have "faces = map (\<lambda>i. fs ! i) (lexsort [map pz fs, map py fs, map px fs] (length fs))"
      by (rule Inr_of_if)
    then have "set faces \<subseteq> set fs" by (simp only: sorted_selection_subset)
    moreover have "set fs \<subseteq> set F" unfolding fs_def by (rule mask_select_subset)
    ultimately have a: "set faces \<subseteq> set (np_round rnd (apply_PBC wrap (shift_x r W) b) d)"
      unfolding F_def by (rule subset_trans)
    have b: "\<forall>s\<in>set (shift_x r W). \<exists>v\<in>set verts. pz s = pz (wrap b v)"
      by (auto simp add: shift_x_def apply_PBC_def pz_def W_def)
    show ?thesis
      by (rule exI [of _ "shift_x r W"], rule conjI, rule a, rule b)
  next
    assume y: "flatside = ''y''"
    define F where "F = np_round rnd (apply_PBC wrap (shift_y r W) b) d"
    define fs where "fs = mask_select F (isin_invert (map py F) (map py V))"
    have eq: "hex_verts2faces wrap rnd verts r b flatside tol =
        (if 2 * length fs \<noteq> length verts
         then Inl (FaceCount (length fs) (length verts))
         else Inr (map (\<lambda>i. fs ! i) (lexsort [map pz fs, map py fs, map px fs] (length fs))))"
      unfolding fs_def F_def V_def W_def
      using chk p y
      by (simp add: hex_verts2faces_def Let_def length_rounded_verts)
    have "(if 2 * length fs \<noteq> length verts
         then Inl (FaceCount (length fs) (length verts))
         else Inr (map (\<lambda>i. fs ! i) (lexsort [map pz fs, map py fs, map px fs] (length fs))))
        = Inr faces"
      using assms by (simp only: eq)
    then have "faces = map (\<lambda>i. fs ! i) (lexsort [map pz fs, map py fs, map px fs] (length fs))"
      by (rule Inr_of_if)
    then have "set faces \<subseteq> set fs" by (simp only: sorted_selection_subset)
    moreover have "set fs \<subseteq> set F" unfolding fs_def by (rule mask_select_subset)
    ultimately have a: "set faces \<subseteq> set (np_round rnd (apply_PBC wrap (shift_y r W) b) d)"
      unfolding F_def by (rule subset_trans)
    have b: "\<forall>s\<in>set (shift_y r W). \<exists>v\<in>set verts. pz s = pz (wrap b v)"
      by (auto simp add: shift_y_def apply_PBC_def pz_def W_def)
    show ?thesis
      by (rule exI [of _ "shift_y r W"], rule conjI, rule a, rule b)
  qed
  then obtain ss where ss: "set faces \<subseteq> set (np_round rnd (apply_PBC wrap ss b) d)"
      "\<forall>s\<in>set ss. \<exists>v\<in>set verts. pz s = pz (wrap b v)"
    by blast
  have "\<exists>s. (\<exists>v\<in>set verts. pz s = pz (wrap b v)) \<and> pz f = rnd d (pz (wrap b s))"
    if "f \<in> set faces" for f
  proof -
    have "f \<in> set (np_round rnd (apply_PBC wrap ss b) d)" using that ss(1) by blast
    from rounded_wrapped_heights [OF this] obtain s where "s \<in> set ss"
      "pz f = rnd d (pz (wrap b s))" by blast
    then show ?thesis using ss(2) by blast
  qed
  then show ?thesis using nonempty unfolding d_def by blast
qed

text \<open>
  Claim C8, amended. When the wrapped vertices of the lattice all have exactly the
  height \<open>c\<close>, and the height of a wrapped position depends on the height of the
  position only, all candidates obtained by shifting the returned faces by \<open>dz\<close> have
  the same coordinate \<open>z\<close>, the rounded wrapped height plus \<open>dz\<close>, and this is the
  value read from the first candidate.
\<close>

theorem candidates_share_z_of_exactly_flat_lattice:
  assumes "hex_verts2faces wrap rnd verts r b flatside tol = Inr faces"
    and "\<forall>v\<in>set verts. pz (wrap b v) = c"
    and "\<forall>p q. pz p = pz q \<longrightarrow> pz (wrap b p) = pz (wrap b q)"
  shows "z_pos (shift_z dz faces) = Inr (rnd \<lceil>- log 10 tol\<rceil> (pz (wrap b (0, 0, c))) + dz) \<and>
         (\<forall>p\<in>set (shift_z dz faces). pz p = rnd \<lceil>- log 10 tol\<rceil> (pz (wrap b (0, 0, c))) + dz)"
proof -
  let ?h = "rnd \<lceil>- log 10 tol\<rceil> (pz (wrap b (0, 0, c)))"
  note hs = hex_verts2faces_heights [OF assms(1)]
  have each: "pz f = ?h" if "f \<in> set faces" for f
  proof -
    from hs that obtain s v where "v \<in> set verts" "pz s = pz (wrap b v)"
      "pz f = rnd \<lceil>- log 10 tol\<rceil> (pz (wrap b s))" by blast
    moreover have "pz s = pz (0 :: real, 0 :: real, c)"
      using calculation(1,2) assms(2) by (simp add: pz_def)
    ultimately have "pz (wrap b s) = pz (wrap b (0, 0, c))" using assms(3) by blast
    then show ?thesis using \<open>pz f = rnd \<lceil>- log 10 tol\<rceil> (pz (wrap b s))\<close> by simp
  qed
  obtain f0 fs where faces: "faces = f0 # fs"
    using hs by (cases faces) simp_all
  have "pz f0 = ?h" using each faces by simp
  then have a: "z_pos (shift_z dz faces) = Inr (?h + dz)"
    by (simp add: z_pos_def shift_z_def faces pz_def)
  have b: "\<forall>p\<in>set (shift_z dz faces). pz p = ?h + dz"
    using each by (auto simp add: shift_z_def pz_def)
  from a b show ?thesis ..
qed

theorem candidates_share_z_of_exactly_flat_lattice_witness:
  "hex_verts2faces wrap_ortho round_decimals (gra_verts 10) r0 gra_cell ''x'' (1 / 1000) =
     Inr [(172 / 100, 20 / 100, 10), (385 / 100, 143 / 100, 10)] \<and>
   z_pos (shift_z z_shift [(172 / 100, 20 / 100, 10), (385 / 100, 143 / 100, 10)]) =
     Inr (10 + z_shift) \<and>
   pz (shift_z z_shift [(172 / 100, 20 / 100, 10), (385 / 100, 143 / 100, 10)] ! 1) =
     10 + z_shift"
proof -
  have h: "\<forall>v\<in>set (gra_verts 10). pz (wrap_ortho gra_cell v) = 10"
    by (simp add: gra_verts_def gra_cell_def wrap_ortho_def wrap_coord_def pz_def)
  have w: "\<forall>p q. pz p = pz q \<longrightarrow> pz (wrap_ortho gra_cell p) = pz (wrap_ortho gra_cell q)"
    by (simp add: wrap_ortho_def pz_def)
  have v: "round_decimals \<lceil>- log 10 (1 / 1000)\<rceil> (pz (wrap_ortho gra_cell (0, 0, 10))) = 10"
  proof -
    have "\<lceil>- log 10 (1 / 1000)\<rceil> = 3"
      using precision_milli by (simp add: precision_of_def)
    then show ?thesis
      by (simp add: round_decimals_def rint_def wrap_ortho_def wrap_coord_def gra_cell_def
          pz_def Let_def)
  qed
  show ?thesis
    using candidates_share_z_of_exactly_flat_lattice [OF run_gra_flat h w, of z_shift]
      run_gra_flat
    by (simp add: v shift_z_def pz_def)
qed

text \<open>
  Claim C8 as stated fails: the sheet whose third atom lies 0.0009 above the others is
  flat within the tolerance 0.001, its two faces are returned with the rounded heights
  10 and 10.001, and the two shifted candidates differ in \<open>z\<close>.
\<close>

theorem candidates_differ_in_z_counterexample:
  "hex_verts2faces wrap_ortho round_decimals (gra_verts (100009 / 10000)) r0 gra_cell ''x''
     (1 / 1000) = Inr [(172 / 100, 20 / 100, 10), (385 / 100, 143 / 100, 10001 / 1000)] \<and>
   pz (shift_z z_shift [(172 / 100, 20 / 100, 10), (385 / 100, 143 / 100, 10001 / 1000)] ! 1) \<noteq>
   pz (shift_z z_shift [(172 / 100, 20 / 100, 10), (385 / 100, 143 / 100, 10001 / 1000)] ! 0)"
proof -
  have "pz (shift_z z_shift [(172 / 100, 20 / 100, 10), (385 / 100, 143 / 100, 10001 / 1000)] ! 1) \<noteq>
   pz (shift_z z_shift [(172 / 100, 20 / 100, 10), (385 / 100, 143 / 100, 10001 / 1000)] ! 0)"
    by (simp add: shift_z_def pz_def)
  then show ?thesis using run_gra_tilted by blast
qed

end
